theory Spec2Isabelle
  imports Main "HOL-Library.Sublist" "HOL-Library.Multiset"
begin

section \<open>Data model\<close>

text \<open>
  Strings are Python \<open>str\<close> values read as lists of code points; a \<open>char\<close> stands for a
  code point below 256.  The line feed is the only character the code names that has no
  printable literal.
\<close>

abbreviation NL :: char where
  "NL \<equiv> CHR 0x0A"

text \<open>
  Exceptions.  \<open>HTTPException\<close> carries the status code and the detail; the three fixed
  detail messages of the source are constructors, and \<open>StrOf e\<close> is \<open>str(e)\<close>, the detail
  the outer handlers build from a caught exception.  \<open>EngineError\<close> is whatever
  \<open>arun_many\<close> raises, \<open>SearchError\<close> what \<open>make_searxng_request\<close> raises.
\<close>

datatype exn =
    IndexError
  | TypeError
  | EngineError string
  | SearchError string
  | HTTPException nat detail
and detail =
    AllUrlsFailed
  | NoSearchResults
  | NoValidUrls
  | StrOf exn

text \<open>
  One element of the list \<open>arun_many\<close> returns, as far as \<open>crawl_urls\<close> inspects it:
  the element may be \<open>None\<close>, may lack the attribute \<open>success\<close>, and otherwise has a
  truth value \<open>success\<close> and possibly an attribute \<open>markdown\<close>, which possibly has an
  attribute \<open>fit_markdown\<close>, which is a string or not (\<open>FitNone\<close>: a value to which
  \<open>+ '\n\n'\<close> cannot be applied).
\<close>

datatype fit_markdown = NoFitAttr | FitNone | Fit string

datatype markdown = NoMarkdownAttr | Markdown fit_markdown

datatype crawl_result = ResultNone | NoSuccessAttr | Result bool markdown

text \<open>The three lists \<open>crawl_urls\<close> fills: \<open>all_results\<close>, \<open>failed_urls\<close>, \<open>retry_urls\<close>.\<close>

record locals =
  all_results :: "string list"
  failed_acc :: "string list"
  retry_urls :: "string list"

text \<open>The dictionary \<open>crawl_urls\<close> returns.\<close>

record response =
  content :: string
  success_count :: nat
  failed_urls :: "string list"

text \<open>
  The rendering engine \<open>self.crawler.arun_many\<close> is an external collaborator: a function
  of the URL list and of the engine's own state \<open>'s\<close>, which raises (\<open>Inl\<close> the message)
  or returns a list of results, and leaves a new state.
\<close>

type_synonym 's engine = "string list \<Rightarrow> 's \<Rightarrow> (string + crawl_result list) \<times> 's"


section \<open>The two passes of \<open>crawl_urls\<close>\<close>

text \<open>\<open>urls[i]\<close> for \<open>i\<close> from \<open>enumerate\<close>: IndexError out of range.\<close>

definition index :: "'a list \<Rightarrow> nat \<Rightarrow> exn + 'a" where
  "index xs i = (if i < length xs then Inr (xs ! i) else Inl IndexError)"

definition record_retry :: "string \<Rightarrow> locals \<Rightarrow> locals" where
  "record_retry u st = st\<lparr>retry_urls := retry_urls st @ [u]\<rparr>"

definition record_failed :: "string \<Rightarrow> locals \<Rightarrow> locals" where
  "record_failed u st = st\<lparr>failed_acc := failed_acc st @ [u]\<rparr>"

text \<open>
  The body of the inner \<open>try\<close> of either loop (lines 235-257 and 271-293); the loops
  differ only in the list an unusable result's URL goes to, here \<open>fail\<close>.  Every branch
  reads \<open>urls[i]\<close> (for the log line or the append), so every branch can raise
  IndexError; \<open>fit_markdown + '\n\n'\<close> raises TypeError when the attribute is no string.
\<close>

definition give_up :: "(string \<Rightarrow> locals \<Rightarrow> locals) \<Rightarrow> string list \<Rightarrow> nat \<Rightarrow> locals \<Rightarrow> exn + locals" where
  "give_up fail urls i st =
     (case index urls i of Inl e \<Rightarrow> Inl e | Inr u \<Rightarrow> Inr (fail u st))"

fun try_body :: "(string \<Rightarrow> locals \<Rightarrow> locals) \<Rightarrow> string list \<Rightarrow> nat \<Rightarrow> crawl_result \<Rightarrow> locals \<Rightarrow> exn + locals" where
  "try_body fail urls i ResultNone st = give_up fail urls i st"
| "try_body fail urls i NoSuccessAttr st = give_up fail urls i st"
| "try_body fail urls i (Result True NoMarkdownAttr) st = give_up fail urls i st"
| "try_body fail urls i (Result True (Markdown NoFitAttr)) st = give_up fail urls i st"
| "try_body fail urls i (Result True (Markdown FitNone)) st = Inl TypeError"
| "try_body fail urls i (Result True (Markdown (Fit s))) st =
     (let result_with_source = s @ [NL, NL];
          st' = st\<lparr>all_results := all_results st @ [result_with_source]\<rparr>
      in case index urls i of Inl e \<Rightarrow> Inl e | Inr u \<Rightarrow> Inr st')"
| "try_body fail urls i (Result False md) st = give_up fail urls i st"

text \<open>
  One iteration: the \<open>try\<close> with its handler \<open>except Exception\<close>, which appends
  \<open>urls[i]\<close> to the failure list and so raises IndexError itself when \<open>i\<close> is out of
  range; that exception leaves the loop.  The handler runs on the lists as they were
  before the iteration: TypeError is raised before the append to \<open>all_results\<close>, and
  after an IndexError the handler raises and the lists are dropped.
\<close>

definition iteration :: "(string \<Rightarrow> locals \<Rightarrow> locals) \<Rightarrow> string list \<Rightarrow> nat \<Rightarrow> crawl_result \<Rightarrow> locals \<Rightarrow> exn + locals" where
  "iteration fail urls i result st =
     (case try_body fail urls i result st of
        Inr st' \<Rightarrow> Inr st'
      | Inl e \<Rightarrow> give_up fail urls i st)"

text \<open>\<open>for i, result in enumerate(results)\<close>, from index \<open>i\<close> on.\<close>

fun run_pass :: "(string \<Rightarrow> locals \<Rightarrow> locals) \<Rightarrow> string list \<Rightarrow> nat \<Rightarrow> crawl_result list \<Rightarrow> locals \<Rightarrow> exn + locals" where
  "run_pass fail urls i [] st = Inr st"
| "run_pass fail urls i (result # results) st =
     (case iteration fail urls i result st of
        Inl e \<Rightarrow> Inl e
      | Inr st' \<Rightarrow> run_pass fail urls (Suc i) results st')"

definition init_locals :: locals where
  "init_locals = \<lparr>all_results = [], failed_acc = [], retry_urls = []\<rparr>"

text \<open>
  Lines 225-298: the first call of the engine, the first loop, and, when \<open>retry_urls\<close> is
  not empty, the second call and the second loop.  The value is what the block raises or
  the three lists, with the argument lists of the engine calls made, in order, and the
  engine's state.
\<close>

definition fetch :: "'s engine \<Rightarrow> string list \<Rightarrow> 's \<Rightarrow> (exn + locals) \<times> string list list \<times> 's" where
  "fetch arun_many urls s =
     (case arun_many urls s of
        (Inl msg, s1) \<Rightarrow> (Inl (EngineError msg), [urls], s1)
      | (Inr results, s1) \<Rightarrow>
          (case run_pass record_retry urls 0 results init_locals of
             Inl e \<Rightarrow> (Inl e, [urls], s1)
           | Inr st \<Rightarrow>
               if retry_urls st \<noteq> [] then
                 (case arun_many (retry_urls st) s1 of
                    (Inl msg, s2) \<Rightarrow> (Inl (EngineError msg), [urls, retry_urls st], s2)
                  | (Inr retry_results, s2) \<Rightarrow>
                      (run_pass record_failed (retry_urls st) 0 retry_results st,
                       [urls, retry_urls st], s2))
               else (Inr st, [urls], s1)))"


subsection \<open>What one iteration decides\<close>

text \<open>
  The loop body read branch by branch: a result contributes a block exactly when it is not
  \<open>None\<close>, has a true \<open>success\<close>, an attribute \<open>markdown\<close> with an attribute
  \<open>fit_markdown\<close>, and that is a string; the block is the string followed by two line
  feeds.  In every other branch the URL goes to the pass's failure list.  These
  functions state the outcome of a whole pass; that the loops compute them is proved
  below (\<open>iteration_eq\<close>, \<open>run_pass_retry\<close>, \<open>run_pass_failed\<close>).
\<close>

fun block_of :: "crawl_result \<Rightarrow> string option" where
  "block_of (Result True (Markdown (Fit s))) = Some (s @ [NL, NL])"
| "block_of r = None"

definition usable :: "crawl_result \<Rightarrow> bool" where
  "usable r = (block_of r \<noteq> None)"

definition usable_blocks :: "crawl_result list \<Rightarrow> string list" where
  "usable_blocks rs = List.map_filter block_of rs"

text \<open>The URLs whose result, at the same position, is usable, and those whose result is not.\<close>

definition usable_urls :: "string list \<Rightarrow> crawl_result list \<Rightarrow> string list" where
  "usable_urls us rs = map fst (filter (\<lambda>(u, r). usable r) (zip us rs))"

definition unusable_urls :: "string list \<Rightarrow> crawl_result list \<Rightarrow> string list" where
  "unusable_urls us rs = map fst (filter (\<lambda>(u, r). \<not> usable r) (zip us rs))"


section \<open>The content normalizer\<close>

subsection \<open>String primitives of Python\<close>

text \<open>
  \<open>str.isspace\<close> on one code point below 256, which is also the class \<open>\s\<close> of \<open>re\<close>
  on \<open>str\<close> patterns: TAB to CR, FS to US, the space, NEL and the no-break space.
\<close>

definition isspace :: "char \<Rightarrow> bool" where
  "isspace c =
     (let n = (of_char c :: nat)
      in (9 \<le> n \<and> n \<le> 13) \<or> (28 \<le> n \<and> n \<le> 32) \<or> n = 133 \<or> n = 160)"

text \<open>\<open>s.strip()\<close>.\<close>

definition strip :: "string \<Rightarrow> string" where
  "strip s = rev (dropWhile isspace (rev (dropWhile isspace s)))"

text \<open>\<open>s.split("\n")\<close>; \<open>cur\<close> is the piece being read.\<close>

fun split_acc :: "string \<Rightarrow> string \<Rightarrow> string list" where
  "split_acc cur [] = [cur]"
| "split_acc cur (c # cs) =
     (if c = NL then cur # split_acc [] cs else split_acc (cur @ [c]) cs)"

definition split_nl :: "string \<Rightarrow> string list" where
  "split_nl s = split_acc [] s"

text \<open>\<open>sep.join(xs)\<close>.\<close>

fun join :: "string \<Rightarrow> string list \<Rightarrow> string" where
  "join sep [] = []"
| "join sep [x] = x"
| "join sep (x # y # ys) = x @ sep @ join sep (y # ys)"

subsection \<open>\<open>markdown_to_text\<close>\<close>

text \<open>
  \<open>markdown.markdown\<close> and \<open>BeautifulSoup(...).get_text(separator="\n")\<close> are library
  code; their composition is the parameter \<open>html_text\<close>.  The source's own part is the
  cleanup of the extracted text: the pieces between line feeds, stripped, those that are
  empty after stripping left out, joined by line feeds.
\<close>

definition markdown_to_text :: "(string \<Rightarrow> string) \<Rightarrow> string \<Rightarrow> string" where
  "markdown_to_text html_text markdown_str =
     (let text = html_text markdown_str
      in join [NL] (map strip (filter (\<lambda>line. strip line \<noteq> []) (split_nl text))))"

subsection \<open>\<open>markdown_to_text_regex\<close>\<close>

text \<open>
  Each \<open>re.sub\<close> scans the string from the left; where the pattern matches, the match
  is replaced and the scan goes on behind it, elsewhere one character is copied.  None
  of the eight patterns matches the empty string.

  \<open>re.sub(r'#+\s*', '', s)\<close>: a run of \<open>#\<close> and the white space behind it, anywhere.
\<close>

function sub_headers :: "string \<Rightarrow> string" where
  "sub_headers [] = []"
| "sub_headers (c # cs) =
     (if c = CHR ''#''
      then sub_headers (dropWhile isspace (dropWhile (\<lambda>x. x = CHR ''#'') cs))
      else c # sub_headers cs)"
  by pat_completeness auto
termination
  by (relation "measure length")
     (auto intro: le_less_trans [OF length_dropWhile_le] le_trans [OF length_dropWhile_le] simp: less_Suc_eq_le)

text \<open>
  \<open>\[([^\]]+)\]\([^\)]+\)\<close> at the head of \<open>s\<close>: the label and what follows the match.
  Both classes are greedy and exclude exactly the character that must follow them, so the
  pattern matches only with the longest runs.
\<close>

definition match_link :: "string \<Rightarrow> (string \<times> string) option" where
  "match_link s =
     (case s of
        c # t \<Rightarrow>
          if c = CHR ''[''
          then (let label = takeWhile (\<lambda>x. x \<noteq> CHR '']'') t
                in if label = [] then None
                   else (case dropWhile (\<lambda>x. x \<noteq> CHR '']'') t of
                           b # p # t2 \<Rightarrow>
                             if b = CHR '']'' \<and> p = CHR ''(''
                             then (let target = takeWhile (\<lambda>x. x \<noteq> CHR '')'') t2
                                   in if target = [] then None
                                      else (case dropWhile (\<lambda>x. x \<noteq> CHR '')'') t2 of
                                              q # rest \<Rightarrow>
                                                if q = CHR '')'' then Some (label, rest) else None
                                            | [] \<Rightarrow> None))
                             else None
                         | _ \<Rightarrow> None))
          else None
      | [] \<Rightarrow> None)"


lemma dropWhile_Cons_shorter: "dropWhile P xs = y # ys \<Longrightarrow> length ys < length xs"
  using length_dropWhile_le [of P xs] by simp

lemma match_link_shorter:
  assumes "match_link s = Some (label, rest)"
  shows "length rest < length s"
proof -
  from assms obtain c t b p t2 q where s: "s = c # t"
    and t: "dropWhile (\<lambda>x. x \<noteq> CHR '']'') t = b # p # t2"
    and t2: "dropWhile (\<lambda>x. x \<noteq> CHR '')'') t2 = q # rest"
    by (auto simp: match_link_def Let_def split: list.splits if_splits)
  from dropWhile_Cons_shorter [OF t2] have "length rest < length t2" .
  moreover from dropWhile_Cons_shorter [OF t] have "length t2 < length t" by simp
  ultimately show ?thesis using s by simp
qed

text \<open>\<open>re.sub(r'\[([^\]]+)\]\([^\)]+\)', r'\1', s)\<close>.\<close>

function sub_links :: "string \<Rightarrow> string" where
  "sub_links [] = []"
| "sub_links (c # cs) =
     (case match_link (c # cs) of
        Some (label, rest) \<Rightarrow> label @ sub_links rest
      | None \<Rightarrow> c # sub_links cs)"
  by pat_completeness auto
termination
  by (relation "measure length") (auto dest: match_link_shorter)

text \<open>
  The lazy \<open>.*?\<close> followed by the closing delimiter \<open>d\<close>: the shortest run of characters
  (not a line feed, unless DOTALL) after which \<open>d\<close> stands; the run and what follows
  \<open>d\<close>.
\<close>

fun find_close :: "string \<Rightarrow> bool \<Rightarrow> string \<Rightarrow> (string \<times> string) option" where
  "find_close d dotall [] = (if d = [] then Some ([], []) else None)"
| "find_close d dotall (c # cs) =
     (if prefix d (c # cs) then Some ([], drop (length d) (c # cs))
      else if c = NL \<and> \<not> dotall then None
      else (case find_close d dotall cs of
              Some (inner, rest) \<Rightarrow> Some (c # inner, rest)
            | None \<Rightarrow> None))"

text \<open>
  An opening delimiter, one of \<open>ds\<close> tried in order as the alternatives of the group, the
  lazy run, and the same delimiter again (the back-reference \<open>\1\<close>).
\<close>

fun match_wrapped :: "string list \<Rightarrow> bool \<Rightarrow> string \<Rightarrow> (string \<times> string) option" where
  "match_wrapped [] dotall s = None"
| "match_wrapped (d # ds) dotall s =
     (if prefix d s
      then (case find_close d dotall (drop (length d) s) of
              Some r \<Rightarrow> Some r
            | None \<Rightarrow> match_wrapped ds dotall s)
      else match_wrapped ds dotall s)"

lemma find_close_shorter: "find_close d dotall s = Some (inner, rest) \<Longrightarrow> length rest \<le> length s"
  by (induction s arbitrary: inner) (auto split: if_splits option.splits)

lemma match_wrapped_shorter [termination_simp]:
  "[] \<notin> set ds \<Longrightarrow> match_wrapped ds dotall s = Some (inner, rest) \<Longrightarrow> length rest < length s"
proof (induction ds)
  case Nil
  then show ?case by simp
next
  case (Cons d ds)
  show ?case
  proof (cases "prefix d s \<and> find_close d dotall (drop (length d) s) \<noteq> None")
    case True
    then have fc: "find_close d dotall (drop (length d) s) = Some (inner, rest)"
      using Cons.prems(2) by (auto split: option.splits)
    from True have "length d \<le> length s" by (auto simp: prefix_def)
    moreover have "d \<noteq> []" using Cons.prems(1) by auto
    ultimately have "length (drop (length d) s) < length s"
      by (cases d) auto
    with find_close_shorter [OF fc] show ?thesis by simp
  next
    case False
    then have "match_wrapped ds dotall s = Some (inner, rest)"
      using Cons.prems(2) by (auto split: if_splits option.splits)
    with Cons show ?thesis by simp
  qed
qed

text \<open>
  \<open>re.sub\<close> of such a pattern; \<open>keep\<close> says whether the replacement is the lazy group or
  the empty string.  The delimiters of the source are never empty; the function copies
  its input if one were.
\<close>

function sub_wrapped :: "string list \<Rightarrow> bool \<Rightarrow> bool \<Rightarrow> string \<Rightarrow> string" where
  "sub_wrapped ds dotall keep [] = []"
| "sub_wrapped ds dotall keep (c # cs) =
     (if [] \<in> set ds then c # cs
      else (case match_wrapped ds dotall (c # cs) of
              Some (inner, rest) \<Rightarrow> (if keep then inner else []) @ sub_wrapped ds dotall keep rest
            | None \<Rightarrow> c # sub_wrapped ds dotall keep cs))"
  by pat_completeness auto
termination
  by (relation "measure (\<lambda>(ds, dotall, keep, s). length s)")
     (auto dest: match_wrapped_shorter)

text \<open>
  \<open>re.sub(r'^M\s*', '', s, flags=re.MULTILINE)\<close> for a one-character class \<open>M\<close>, here
  the predicate \<open>mark\<close>.  \<open>bol\<close> says that the scan stands where \<open>^\<close> matches: at the
  start of the string or behind a line feed of the input.  The white space the match
  takes may hold line feeds, so behind a match the scan is at a line start exactly when
  the last character taken is a line feed.
\<close>

function sub_line_start :: "(char \<Rightarrow> bool) \<Rightarrow> bool \<Rightarrow> string \<Rightarrow> string" where
  "sub_line_start mark bol [] = []"
| "sub_line_start mark bol (c # cs) =
     (if bol \<and> mark c
      then (let ws = takeWhile isspace cs
            in sub_line_start mark (ws \<noteq> [] \<and> last ws = NL) (dropWhile isspace cs))
      else c # sub_line_start mark (c = NL) cs)"
  by pat_completeness auto
termination
  by (relation "measure (\<lambda>(mark, bol, s). length s)")
     (auto intro: le_less_trans [OF length_dropWhile_le] simp: less_Suc_eq_le length_dropWhile_le)

text \<open>The eight substitutions of \<open>markdown_to_text_regex\<close>, in the source's order, and the final strip.\<close>

definition markdown_to_text_regex :: "string \<Rightarrow> string" where
  "markdown_to_text_regex markdown_str =
     (let text = sub_headers markdown_str;
          text = sub_links text;
          text = sub_wrapped [''**'', ''__''] False True text;
          text = sub_wrapped [''*'', ''_''] False True text;
          text = sub_line_start (\<lambda>c. c = CHR ''*'' \<or> c = CHR ''-'' \<or> c = CHR ''+'') True text;
          text = sub_wrapped [''```''] True False text;
          text = sub_wrapped [''`''] False True text;
          text = sub_line_start (\<lambda>c. c = CHR ''>'') True text
      in strip text)"


text \<open>
  The normalizer: line 308 applies \<open>markdown_to_text\<close> and then
  \<open>markdown_to_text_regex\<close>.
\<close>

definition normalize :: "(string \<Rightarrow> string) \<Rightarrow> string \<Rightarrow> string" where
  "normalize html_text s = markdown_to_text_regex (markdown_to_text html_text s)"

text \<open>
  A text without markup tokens, for the substitutions above: none of the characters
  \<open>#\<close>, \<open>[\<close>, \<open>*\<close>, \<open>_\<close> and the backquote occurs, and no line starts with \<open>-\<close>, \<open>+\<close>
  or \<open>>\<close>.  \<open>line_starts bol s\<close> lists the characters of \<open>s\<close> that stand where \<open>^\<close>
  matches.
\<close>

fun line_starts :: "bool \<Rightarrow> string \<Rightarrow> string" where
  "line_starts bol [] = []"
| "line_starts bol (c # cs) =
     (if bol then c # line_starts (c = NL) cs else line_starts (c = NL) cs)"

definition markup_free :: "string \<Rightarrow> bool" where
  "markup_free s =
     (list_all (\<lambda>c. c \<noteq> CHR ''#'' \<and> c \<noteq> CHR ''['' \<and> c \<noteq> CHR ''*'' \<and> c \<noteq> CHR ''_'' \<and> c \<noteq> CHR 0x60) s \<and>
      list_all (\<lambda>c. c \<noteq> CHR ''-'' \<and> c \<noteq> CHR ''+'' \<and> c \<noteq> CHR ''>'') (line_starts True s))"


section \<open>\<open>crawl_urls\<close> and the endpoints\<close>

text \<open>
  Lines 300-317: no block at all raises the HTTP error 500; otherwise the blocks are
  joined by the separator line and normalized, and the dictionary is built.
\<close>

definition separator :: string where
  "separator = [NL, NL] @ ''=========='' @ [NL, NL]"

definition reduce :: "(string \<Rightarrow> string) \<Rightarrow> locals \<Rightarrow> exn + response" where
  "reduce html_text st =
     (if all_results st = [] then Inl (HTTPException 500 AllUrlsFailed)
      else (let combined_content = join separator (all_results st);
                plain_text = normalize html_text combined_content
            in Inr \<lparr>content = plain_text,
                    success_count = length (all_results st),
                    failed_urls = failed_acc st\<rparr>))"

text \<open>
  \<open>crawl_urls\<close>: the body above inside the outer \<open>try\<close>, whose handler turns every
  exception, the 500 of the empty case too, into \<open>HTTPException(500, str(e))\<close>.  The
  crawler is taken as initialized.  The result comes with the engine calls made and the
  engine's state.
\<close>

definition crawl_urls :: "(string \<Rightarrow> string) \<Rightarrow> 's engine \<Rightarrow> string list \<Rightarrow> string \<Rightarrow> 's \<Rightarrow> (exn + response) \<times> string list list \<times> 's" where
  "crawl_urls html_text arun_many urls instruction s =
     (case fetch arun_many urls s of
        (Inl e, calls, s') \<Rightarrow> (Inl (HTTPException 500 (StrOf e)), calls, s')
      | (Inr st, calls, s') \<Rightarrow>
          (case reduce html_text st of
             Inl e \<Rightarrow> (Inl (HTTPException 500 (StrOf e)), calls, s')
           | Inr r \<Rightarrow> (Inr r, calls, s')))"

record CrawlRequest =
  urls :: "string list"
  instruction :: string

definition crawl :: "(string \<Rightarrow> string) \<Rightarrow> 's engine \<Rightarrow> CrawlRequest \<Rightarrow> 's \<Rightarrow> (exn + response) \<times> string list list \<times> 's" where
  "crawl html_text arun_many request s =
     crawl_urls html_text arun_many (urls request) (instruction request) s"

record SearchRequest =
  query :: string
  limit :: int
  disabled_engines :: string
  enabled_engines :: string

text \<open>
  What \<open>make_searxng_request\<close> returns: a dictionary that may have the key
  \<open>results\<close>, a list of dictionaries, each of which may have the key \<open>url\<close>.
\<close>

type_synonym result_record = "string \<rightharpoonup> string"

record search_response =
  results :: "result_record list option"

text \<open>\<open>xs[:n]\<close>: a negative \<open>n\<close> counts from the end.\<close>

definition slice_to :: "int \<Rightarrow> 'a list \<Rightarrow> 'a list" where
  "slice_to n xs =
     (if 0 \<le> n then take (nat n) xs else take (length xs - nat (- n)) xs)"

text \<open>
  \<open>search\<close>: \<open>searxng\<close> stands for \<open>WebCrawler.make_searxng_request\<close>, which raises
  (\<open>Inl\<close> the message) or returns the response.  An \<open>HTTPException\<close> is raised again
  as it is, any other exception becomes \<open>HTTPException(500, str(e))\<close>.
\<close>

definition search :: "(string \<Rightarrow> string) \<Rightarrow> 's engine \<Rightarrow> (SearchRequest \<Rightarrow> string + search_response) \<Rightarrow> SearchRequest \<Rightarrow> 's \<Rightarrow> (exn + response) \<times> string list list \<times> 's" where
  "search html_text arun_many searxng request s =
     (case searxng request of
        Inl msg \<Rightarrow> (Inl (HTTPException 500 (StrOf (SearchError msg))), [], s)
      | Inr response \<Rightarrow>
          (case (case results response of None \<Rightarrow> [] | Some rs \<Rightarrow> rs) of
             [] \<Rightarrow> (Inl (HTTPException 404 NoSearchResults), [], s)
           | r # rs \<Rightarrow>
               (case List.map_filter (\<lambda>result. result ''url'') (slice_to (limit request) (r # rs)) of
                  [] \<Rightarrow> (Inl (HTTPException 404 NoValidUrls), [], s)
                | u # us \<Rightarrow>
                    crawl html_text arun_many \<lparr>urls = u # us, instruction = query request\<rparr> s)))"

section \<open>Collaborators and inputs of the concrete runs\<close>

text \<open>
  Stand-ins for the rendering engine, whose state counts the calls: \<open>flaky_engine\<close>
  answers the first call with a usable result, an unsuccessful one and \<open>None\<close>, and
  every later call with a usable result and one without \<open>success\<close>;
  \<open>echo_engine\<close> renders every URL to a page whose content is the URL;
  \<open>blank_engine\<close> renders every URL to a page with empty content.
\<close>

definition flaky_engine :: "nat engine" where
  "flaky_engine us n =
     (if n = 0
      then Inr [Result True (Markdown (Fit ''A'')), Result False NoMarkdownAttr, ResultNone]
      else Inr [Result True (Markdown (Fit ''B'')), NoSuccessAttr], Suc n)"

definition echo_engine :: "nat engine" where
  "echo_engine us n = (Inr (map (\<lambda>u. Result True (Markdown (Fit u))) us), Suc n)"

definition blank_engine :: "nat engine" where
  "blank_engine us n = (Inr (map (\<lambda>u. Result True (Markdown (Fit []))) us), Suc n)"

text \<open>
  Stand-ins for the search collaborator: three records, the second without the key
  \<open>url\<close>, and an empty result list; and a request with a given limit.
\<close>

definition three_hits :: "SearchRequest \<Rightarrow> string + search_response" where
  "three_hits request =
     Inr \<lparr>results = Some [[''url'' \<mapsto> ''a''], [''title'' \<mapsto> ''t''], [''url'' \<mapsto> ''c'']]\<rparr>"

definition no_hits :: "SearchRequest \<Rightarrow> string + search_response" where
  "no_hits request = Inr \<lparr>results = Some []\<rparr>"

definition request_of :: "int \<Rightarrow> SearchRequest" where
  "request_of n = \<lparr>query = ''q'', limit = n, disabled_engines = [], enabled_engines = []\<rparr>"

text \<open>
  Two markup texts: the cleanup scenario of the specification, and a line of two
  asterisks around a space between two lines.
\<close>

definition sample_markup :: string where
  "sample_markup = ''# Title'' @ [NL] @ ''**bold** and [link](http://x) and '' @ [CHR 0x60] @ ''code'' @ [CHR 0x60]"

definition spaced_stars :: string where
  "spaced_stars = ''a'' @ [NL] @ ''* *'' @ [NL] @ ''b''"


section \<open>The loops and the classification\<close>

lemma iteration_eq:
  "iteration fail us i r st =
     (if i < length us
      then Inr (case block_of r of
                  Some b \<Rightarrow> st\<lparr>all_results := all_results st @ [b]\<rparr>
                | None \<Rightarrow> fail (us ! i) st)
      else Inl IndexError)"
  by (cases "(fail, us, i, r, st)" rule: try_body.cases)
     (auto simp: iteration_def give_up_def index_def Let_def)

lemma usable_blocks_simps [simp]:
  "usable_blocks [] = []"
  "usable_blocks (r # rs) = (case block_of r of Some b \<Rightarrow> b # usable_blocks rs | None \<Rightarrow> usable_blocks rs)"
  by (auto simp: usable_blocks_def List.map_filter_simps split: option.splits)

lemma unusable_urls_simps [simp]:
  "unusable_urls us [] = []"
  "unusable_urls [] rs = []"
  "unusable_urls (u # us) (r # rs) = (if block_of r = None then u # unusable_urls us rs else unusable_urls us rs)"
  by (auto simp: unusable_urls_def usable_def)

lemma usable_urls_simps [simp]:
  "usable_urls us [] = []"
  "usable_urls [] rs = []"
  "usable_urls (u # us) (r # rs) = (if block_of r \<noteq> None then u # usable_urls us rs else usable_urls us rs)"
  by (auto simp: usable_urls_def usable_def)

lemma run_pass_overrun:
  "length us < i + length rs \<Longrightarrow> rs \<noteq> [] \<Longrightarrow> run_pass fail us i rs st = Inl IndexError"
proof (induction rs arbitrary: i st)
  case Nil
  then show ?case by simp
next
  case (Cons r rs)
  show ?case
  proof (cases "i < length us")
    case True
    with Cons.prems have "rs \<noteq> []" by auto
    with Cons.prems Cons.IH [of "Suc i"] True show ?thesis
      by (simp add: iteration_eq)
  next
    case False
    then show ?thesis by (simp add: iteration_eq)
  qed
qed

lemma run_pass_retry:
  "i + length rs \<le> length us \<Longrightarrow>
   run_pass record_retry us i rs st =
     Inr (st\<lparr>all_results := all_results st @ usable_blocks rs,
             retry_urls := retry_urls st @ unusable_urls (drop i us) rs\<rparr>)"
proof (induction rs arbitrary: i st)
  case Nil
  then show ?case by simp
next
  case (Cons r rs)
  then have i: "i < length us" and nxt: "Suc i + length rs \<le> length us" by simp_all
  have d: "drop i us = us ! i # drop (Suc i) us"
    using i by (simp add: Cons_nth_drop_Suc)
  show ?case
    using i Cons.IH [OF nxt]
    by (cases "block_of r") (simp_all add: iteration_eq d record_retry_def)
qed

lemma run_pass_failed:
  "i + length rs \<le> length us \<Longrightarrow>
   run_pass record_failed us i rs st =
     Inr (st\<lparr>all_results := all_results st @ usable_blocks rs,
             failed_acc := failed_acc st @ unusable_urls (drop i us) rs\<rparr>)"
proof (induction rs arbitrary: i st)
  case Nil
  then show ?case by simp
next
  case (Cons r rs)
  then have i: "i < length us" and nxt: "Suc i + length rs \<le> length us" by simp_all
  have d: "drop i us = us ! i # drop (Suc i) us"
    using i by (simp add: Cons_nth_drop_Suc)
  show ?case
    using i Cons.IH [OF nxt]
    by (cases "block_of r") (simp_all add: iteration_eq d record_failed_def)
qed

lemma run_pass_Inr_length:
  "run_pass fail us 0 rs st = Inr st' \<Longrightarrow> length rs \<le> length us"
  using run_pass_overrun [of us 0 rs fail st] by (cases "rs = []") (auto simp: not_le [symmetric])

lemma first_pass:
  "run_pass record_retry us 0 rs init_locals = Inr st \<longleftrightarrow>
     length rs \<le> length us \<and>
     st = \<lparr>all_results = usable_blocks rs, failed_acc = [], retry_urls = unusable_urls us rs\<rparr>"
  using run_pass_retry [of 0 rs us init_locals] run_pass_Inr_length [of record_retry us rs init_locals st]
  by (auto simp: init_locals_def)

lemma fetch_no_retry:
  assumes "arun_many us s = (Inr r1, s1)" "length r1 \<le> length us" "unusable_urls us r1 = []"
  shows "fetch arun_many us s =
           (Inr \<lparr>all_results = usable_blocks r1, failed_acc = [], retry_urls = []\<rparr>, [us], s1)"
  using assms run_pass_retry [of 0 r1 us init_locals]
  by (simp add: fetch_def init_locals_def)

lemma fetch_retry:
  assumes "arun_many us s = (Inr r1, s1)" "length r1 \<le> length us" "unusable_urls us r1 \<noteq> []"
    and "arun_many (unusable_urls us r1) s1 = (Inr r2, s2)" "length r2 \<le> length (unusable_urls us r1)"
  shows "fetch arun_many us s =
           (Inr \<lparr>all_results = usable_blocks r1 @ usable_blocks r2,
                 failed_acc = unusable_urls (unusable_urls us r1) r2,
                 retry_urls = unusable_urls us r1\<rparr>, [us, unusable_urls us r1], s2)"
  using assms run_pass_retry [of 0 r1 us init_locals]
    run_pass_failed [of 0 r2 "unusable_urls us r1"]
  by (simp add: fetch_def init_locals_def)

lemma fetch_Inr:
  assumes "fetch arun_many us s = (Inr st, calls, s')"
  shows "\<exists>r1 s1. arun_many us s = (Inr r1, s1) \<and> length r1 \<le> length us \<and>
           retry_urls st = unusable_urls us r1 \<and>
           (if retry_urls st = []
            then st = \<lparr>all_results = usable_blocks r1, failed_acc = [], retry_urls = []\<rparr> \<and>
                 calls = [us] \<and> s' = s1
            else \<exists>r2. arun_many (retry_urls st) s1 = (Inr r2, s') \<and>
                   length r2 \<le> length (retry_urls st) \<and>
                   st = \<lparr>all_results = usable_blocks r1 @ usable_blocks r2,
                         failed_acc = unusable_urls (retry_urls st) r2,
                         retry_urls = unusable_urls us r1\<rparr> \<and>
                   calls = [us, retry_urls st])"
proof -
  obtain x1 s1 where a1: "arun_many us s = (x1, s1)" by (cases "arun_many us s")
  with assms obtain r1 where x1: "x1 = Inr r1"
    by (cases x1) (auto simp: fetch_def)
  from assms a1 x1 obtain st1 where p1: "run_pass record_retry us 0 r1 init_locals = Inr st1"
    by (cases "run_pass record_retry us 0 r1 init_locals") (auto simp: fetch_def)
  then have len1: "length r1 \<le> length us"
    and st1: "st1 = \<lparr>all_results = usable_blocks r1, failed_acc = [], retry_urls = unusable_urls us r1\<rparr>"
    by (simp_all add: first_pass)
  show ?thesis
  proof (cases "unusable_urls us r1 = []")
    case True
    with assms a1 x1 p1 st1 len1 show ?thesis
      by (auto simp: fetch_def)
  next
    case False
    obtain x2 s2 where a2: "arun_many (unusable_urls us r1) s1 = (x2, s2)"
      by (cases "arun_many (unusable_urls us r1) s1")
    with assms a1 x1 p1 st1 False obtain r2 where x2: "x2 = Inr r2"
      by (cases x2) (auto simp: fetch_def)
    from assms a1 x1 p1 st1 False a2 x2
    have p2: "run_pass record_failed (unusable_urls us r1) 0 r2 st1 = Inr st"
      and c: "calls = [us, unusable_urls us r1]" and s2: "s' = s2"
      by (auto simp: fetch_def)
    from run_pass_Inr_length [OF p2] have len2: "length r2 \<le> length (unusable_urls us r1)" .
    from fetch_retry [OF _ len1 False _ len2, of arun_many s s1 s2] a1 x1 a2 x2 assms
    have "st = \<lparr>all_results = usable_blocks r1 @ usable_blocks r2,
                 failed_acc = unusable_urls (unusable_urls us r1) r2,
                 retry_urls = unusable_urls us r1\<rparr>"
      by simp
    with False a1 x1 a2 x2 len1 len2 c s2 show ?thesis
      by auto
  qed
qed


lemma length_unusable_urls: "length (unusable_urls us rs) \<le> length us"
proof -
  have "length (unusable_urls us rs) \<le> length (zip us rs)"
    unfolding unusable_urls_def by (simp del: length_zip)
  then show ?thesis by simp
qed

lemma unusable_urls_Nil_iff:
  "length rs = length us \<Longrightarrow> unusable_urls us rs = [] \<longleftrightarrow> list_all usable rs"
  by (induction rs us rule: list_induct2) (auto simp: usable_def)

lemma length_usable_blocks:
  "length rs = length us \<Longrightarrow> length (usable_blocks rs) = length (usable_urls us rs)"
  by (induction rs us rule: list_induct2) (auto split: option.splits)

lemma length_usable_blocks_all: "list_all usable rs \<Longrightarrow> length (usable_blocks rs) = length rs"
  by (induction rs) (auto simp: usable_def split: option.splits)

lemma mset_partition_urls:
  "length rs = length us \<Longrightarrow> mset us = mset (usable_urls us rs) + mset (unusable_urls us rs)"
  by (induction rs us rule: list_induct2) auto

lemma fetch_calls:
  "fst (snd (fetch arun_many us s)) = [us] \<or>
   (\<exists>r1 s1. arun_many us s = (Inr r1, s1) \<and> length r1 \<le> length us \<and> unusable_urls us r1 \<noteq> [] \<and>
      fst (snd (fetch arun_many us s)) = [us, unusable_urls us r1])"
proof (cases "arun_many us s")
  case (Pair x1 s1)
  show ?thesis
  proof (cases x1)
    case (Inl msg)
    with Pair show ?thesis by (simp add: fetch_def)
  next
    case (Inr r1)
    show ?thesis
    proof (cases "run_pass record_retry us 0 r1 init_locals")
      case (Inl e)
      with Pair \<open>x1 = Inr r1\<close> show ?thesis by (simp add: fetch_def)
    next
      case (Inr st)
      then have "length r1 \<le> length us" "retry_urls st = unusable_urls us r1"
        by (simp_all add: first_pass)
      with Pair \<open>x1 = Inr r1\<close> Inr show ?thesis
        by (cases "arun_many (unusable_urls us r1) s1")
           (auto simp: fetch_def split: sum.splits)
    qed
  qed
qed

section \<open>The retrying batch fetcher\<close>

text \<open>
  Claim C1.  Let the engine answer the first call with one result per URL.  If some
  result is not usable, the engine is called exactly once more, and the argument of that
  call is the list of the URLs whose first result is not usable, in the order of the
  batch.  If the batch is not empty and every result is usable, the engine is called
  exactly once, \<open>failed_urls\<close> is empty and \<open>success_count\<close> is the number of URLs.
\<close>

theorem retry_once_or_not_at_all:
  assumes "arun_many us s = (Inr r1, s1)" and "length r1 = length us"
  shows "(\<not> list_all usable r1 \<longrightarrow>
            fst (snd (fetch arun_many us s)) = [us, unusable_urls us r1] \<and>
            fst (snd (crawl_urls html_text arun_many us instr s)) = [us, unusable_urls us r1]) \<and>
         (us \<noteq> [] \<and> list_all usable r1 \<longrightarrow>
            crawl_urls html_text arun_many us instr s =
              (Inr \<lparr>content = normalize html_text (join separator (usable_blocks r1)),
                    success_count = length us, failed_urls = []\<rparr>, [us], s1))"
proof (intro conjI impI)
  assume "\<not> list_all usable r1"
  then have ne: "unusable_urls us r1 \<noteq> []"
    using assms(2) by (simp add: unusable_urls_Nil_iff)
  have p1: "run_pass record_retry us 0 r1 init_locals =
      Inr \<lparr>all_results = usable_blocks r1, failed_acc = [], retry_urls = unusable_urls us r1\<rparr>"
    using assms(2) by (simp add: first_pass)
  show c: "fst (snd (fetch arun_many us s)) = [us, unusable_urls us r1]"
    using assms(1) p1 ne
    by (cases "arun_many (unusable_urls us r1) s1") (auto simp: fetch_def split: sum.splits)
  show "fst (snd (crawl_urls html_text arun_many us instr s)) = [us, unusable_urls us r1]"
    using c by (auto simp: crawl_urls_def split: prod.splits sum.splits)
next
  assume a: "us \<noteq> [] \<and> list_all usable r1"
  then have e: "unusable_urls us r1 = []"
    using assms(2) by (simp add: unusable_urls_Nil_iff)
  have len: "length (usable_blocks r1) = length us"
    using a assms(2) by (simp add: length_usable_blocks_all)
  then have "usable_blocks r1 \<noteq> []" using a by auto
  moreover have "fetch arun_many us s =
      (Inr \<lparr>all_results = usable_blocks r1, failed_acc = [], retry_urls = []\<rparr>, [us], s1)"
    using assms e by (intro fetch_no_retry) simp_all
  ultimately show "crawl_urls html_text arun_many us instr s =
              (Inr \<lparr>content = normalize html_text (join separator (usable_blocks r1)),
                    success_count = length us, failed_urls = []\<rparr>, [us], s1)"
    using len by (simp add: crawl_urls_def reduce_def)
qed


theorem retry_once_or_not_at_all_witness:
  "fst (snd (crawl_urls id flaky_engine [''u1'', ''u2'', ''u3''] ''q'' 0)) =
     [[''u1'', ''u2'', ''u3''], [''u2'', ''u3'']] \<and>
   fst (crawl_urls id echo_engine [''a'', ''b''] ''q'' 0) =
     Inr \<lparr>content = normalize id (join separator [''a'' @ [NL, NL], ''b'' @ [NL, NL]]),
           success_count = 2, failed_urls = []\<rparr> \<and>
   fst (snd (crawl_urls id echo_engine [''a'', ''b''] ''q'' 0)) = [[''a'', ''b'']]"
proof -
  let ?r1 = "[Result True (Markdown (Fit ''A'')), Result False NoMarkdownAttr, ResultNone]"
  let ?u = "[''u1'', ''u2'', ''u3'']"
  have h1: "flaky_engine ?u 0 = (Inr ?r1, 1)" by (simp add: flaky_engine_def)
  have h2: "length ?r1 = length ?u" by simp
  have h3: "\<not> list_all usable ?r1" by (simp add: usable_def)
  have h4: "unusable_urls ?u ?r1 = [''u2'', ''u3'']" by simp
  let ?r = "[Result True (Markdown (Fit ''a'')), Result True (Markdown (Fit ''b''))]"
  let ?v = "[''a'', ''b'']"
  have g1: "echo_engine ?v 0 = (Inr ?r, 1)" by (simp add: echo_engine_def)
  have g2: "length ?r = length ?v" by simp
  have g3: "?v \<noteq> [] \<and> list_all usable ?r" by (simp add: usable_def)
  have g4: "usable_blocks ?r = [''a'' @ [NL, NL], ''b'' @ [NL, NL]]" by simp
  note t1 = retry_once_or_not_at_all [where arun_many = flaky_engine and us = ?u and s = 0
      and ?r1.0 = ?r1 and ?s1.0 = 1 and html_text = id and instr = "''q''"]
  note t2 = retry_once_or_not_at_all [where arun_many = echo_engine and us = ?v and s = 0
      and ?r1.0 = ?r and ?s1.0 = 1 and html_text = id and instr = "''q''"]
  from t1 [OF h1 h2] h3 h4 t2 [OF g1 g2] g3 g4
  show ?thesis by simp
qed

text \<open>
  Claim C2.  \<open>crawl_urls\<close> calls the engine at most twice.  The first loop records no
  failure: the URL of every result that is not usable becomes a retry candidate.  The
  recorded failures are exactly the retry candidates whose second result is not usable,
  and without a retry candidate there is none.
\<close>

theorem at_most_two_passes:
  "length (fst (snd (fetch arun_many us s))) \<le> 2 \<and>
   length (fst (snd (crawl_urls html_text arun_many us instr s))) \<le> 2 \<and>
   (\<forall>r1 st. run_pass record_retry us 0 r1 init_locals = Inr st \<longrightarrow>
      failed_acc st = [] \<and> retry_urls st = unusable_urls us r1) \<and>
   (\<forall>st calls s'. fetch arun_many us s = (Inr st, calls, s') \<longrightarrow>
      (\<exists>r1 s1. arun_many us s = (Inr r1, s1) \<and> retry_urls st = unusable_urls us r1 \<and>
         (if retry_urls st = [] then failed_acc st = [] \<and> calls = [us]
          else \<exists>r2. arun_many (retry_urls st) s1 = (Inr r2, s') \<and>
                 failed_acc st = unusable_urls (retry_urls st) r2 \<and>
                 calls = [us, retry_urls st])))"
proof (intro conjI allI impI)
  show c: "length (fst (snd (fetch arun_many us s))) \<le> 2"
    using fetch_calls [of arun_many us s] by auto
  show "length (fst (snd (crawl_urls html_text arun_many us instr s))) \<le> 2"
    using c by (auto simp: crawl_urls_def split: prod.splits sum.splits)
next
  fix r1 st
  assume "run_pass record_retry us 0 r1 init_locals = Inr st"
  then show "failed_acc st = []" and "retry_urls st = unusable_urls us r1"
    by (simp_all add: first_pass)
next
  fix st calls s'
  assume "fetch arun_many us s = (Inr st, calls, s')"
  from fetch_Inr [OF this] obtain r1 s1 where
    a: "arun_many us s = (Inr r1, s1)" "retry_urls st = unusable_urls us r1"
    and b: "if retry_urls st = []
            then st = \<lparr>all_results = usable_blocks r1, failed_acc = [], retry_urls = []\<rparr> \<and>
                 calls = [us] \<and> s' = s1
            else \<exists>r2. arun_many (retry_urls st) s1 = (Inr r2, s') \<and>
                   length r2 \<le> length (retry_urls st) \<and>
                   st = \<lparr>all_results = usable_blocks r1 @ usable_blocks r2,
                         failed_acc = unusable_urls (retry_urls st) r2,
                         retry_urls = unusable_urls us r1\<rparr> \<and>
                   calls = [us, retry_urls st]"
    by blast
  show "\<exists>r1 s1. arun_many us s = (Inr r1, s1) \<and> retry_urls st = unusable_urls us r1 \<and>
         (if retry_urls st = [] then failed_acc st = [] \<and> calls = [us]
          else \<exists>r2. arun_many (retry_urls st) s1 = (Inr r2, s') \<and>
                 failed_acc st = unusable_urls (retry_urls st) r2 \<and>
                 calls = [us, retry_urls st])"
  proof (cases "retry_urls st = []")
    case True
    with a b show ?thesis by (intro exI [of _ r1] exI [of _ s1]) auto
  next
    case False
    with b obtain r2 where r2: "arun_many (retry_urls st) s1 = (Inr r2, s')"
      "st = \<lparr>all_results = usable_blocks r1 @ usable_blocks r2,
             failed_acc = unusable_urls (retry_urls st) r2,
             retry_urls = unusable_urls us r1\<rparr>" "calls = [us, retry_urls st]"
      by auto
    from r2(2) have "failed_acc st = unusable_urls (retry_urls st) r2"
      by (metis locals.select_convs(2))
    with a r2 False show ?thesis by (intro exI [of _ r1] exI [of _ s1]) auto
  qed
qed

lemma flaky_fetch:
  "fetch flaky_engine [''u1'', ''u2'', ''u3''] 0 =
     (Inr \<lparr>all_results = [''A'' @ [NL, NL], ''B'' @ [NL, NL]], failed_acc = [''u3''],
           retry_urls = [''u2'', ''u3'']\<rparr>,
      [[''u1'', ''u2'', ''u3''], [''u2'', ''u3'']], 2)"
  by (simp add: fetch_def flaky_engine_def init_locals_def iteration_eq record_retry_def
      record_failed_def)

theorem at_most_two_passes_witness:
  "length (fst (snd (fetch flaky_engine [''u1'', ''u2'', ''u3''] 0))) \<le> 2 \<and>
   fetch flaky_engine [''u1'', ''u2'', ''u3''] 0 =
     (Inr \<lparr>all_results = [''A'' @ [NL, NL], ''B'' @ [NL, NL]], failed_acc = [''u3''],
           retry_urls = [''u2'', ''u3'']\<rparr>,
      [[''u1'', ''u2'', ''u3''], [''u2'', ''u3'']], 2) \<and>
   (\<exists>r2. flaky_engine [''u2'', ''u3''] 1 = (Inr r2, 2) \<and>
      [''u3''] = unusable_urls [''u2'', ''u3''] r2)"
proof -
  note t = at_most_two_passes [where arun_many = flaky_engine and us = "[''u1'', ''u2'', ''u3'']"
      and s = 0 and html_text = id and instr = "''q''"]
  from t have len: "length (fst (snd (fetch flaky_engine [''u1'', ''u2'', ''u3''] 0))) \<le> 2"
    by blast
  from t flaky_fetch
  have "\<exists>r1 s1. flaky_engine [''u1'', ''u2'', ''u3''] 0 = (Inr r1, s1) \<and>
          (\<exists>r2. flaky_engine [''u2'', ''u3''] s1 = (Inr r2, 2) \<and>
             [''u3''] = unusable_urls [''u2'', ''u3''] r2)"
    by fastforce
  moreover have "\<And>r1 s1. flaky_engine [''u1'', ''u2'', ''u3''] 0 = (Inr r1, s1) \<Longrightarrow> s1 = 1"
    by (simp add: flaky_engine_def)
  ultimately have "\<exists>r2. flaky_engine [''u2'', ''u3''] 1 = (Inr r2, 2) \<and>
      [''u3''] = unusable_urls [''u2'', ''u3''] r2"
    by blast
  with len flaky_fetch show ?thesis by blast
qed

text \<open>
  Claim C3.  Let the engine answer each call with one result per URL.  Then the fetch ends
  normally, and the batch, as a multiset of URL occurrences, is the disjoint sum of the
  URLs with a usable first result, the retried URLs with a usable second result, and the
  recorded failures; there is one block per URL of the first two groups, so the number
  of blocks and the number of failed URLs add up to the number of URLs of the batch.
  When the URLs of the batch are distinct, no URL with a block is among the failures.
\<close>

theorem every_url_accounted_for:
  assumes "arun_many us s = (Inr r1, s1)" and "length r1 = length us"
    and "unusable_urls us r1 \<noteq> [] \<Longrightarrow>
           arun_many (unusable_urls us r1) s1 = (Inr r2, s2) \<and>
           length r2 = length (unusable_urls us r1)"
  shows "\<exists>st calls s'. fetch arun_many us s = (Inr st, calls, s') \<and>
           failed_acc st = unusable_urls (unusable_urls us r1) r2 \<and>
           mset us = mset (usable_urls us r1) + mset (usable_urls (unusable_urls us r1) r2) +
                     mset (failed_acc st) \<and>
           length (all_results st) =
             length (usable_urls us r1) + length (usable_urls (unusable_urls us r1) r2) \<and>
           length (all_results st) + length (failed_acc st) = length us \<and>
           (distinct us \<longrightarrow>
              set (usable_urls us r1 @ usable_urls (unusable_urls us r1) r2) \<inter>
                set (failed_acc st) = {})"
proof (cases "unusable_urls us r1 = []")
  case True
  have f: "fetch arun_many us s =
      (Inr \<lparr>all_results = usable_blocks r1, failed_acc = [], retry_urls = []\<rparr>, [us], s1)"
    using assms(1,2) True by (intro fetch_no_retry) simp_all
  have m: "mset us = mset (usable_urls us r1)"
    using mset_partition_urls [OF assms(2)] True by simp
  then have "length us = length (usable_urls us r1)"
    by (metis size_mset)
  with f m True length_usable_blocks [OF assms(2)] show ?thesis by simp
next
  case False
  let ?retry = "unusable_urls us r1"
  from assms(3) [OF False] have a2: "arun_many ?retry s1 = (Inr r2, s2)"
    and l2: "length r2 = length ?retry" by simp_all
  have f: "fetch arun_many us s =
      (Inr \<lparr>all_results = usable_blocks r1 @ usable_blocks r2,
            failed_acc = unusable_urls ?retry r2, retry_urls = ?retry\<rparr>, [us, ?retry], s2)"
    using assms(1,2) False a2 l2 by (intro fetch_retry) simp_all
  have m: "mset us = mset (usable_urls us r1) + mset (usable_urls ?retry r2) +
      mset (unusable_urls ?retry r2)"
    using mset_partition_urls [OF assms(2)] mset_partition_urls [OF l2] by simp
  then have "size (mset us) = size (mset (usable_urls us r1) + mset (usable_urls ?retry r2) +
      mset (unusable_urls ?retry r2))" by simp
  then have "length us = length (usable_urls us r1) + length (usable_urls ?retry r2) +
      length (unusable_urls ?retry r2)" by simp
  moreover have "set (usable_urls us r1 @ usable_urls ?retry r2) \<inter>
      set (unusable_urls ?retry r2) = {}" if "distinct us"
  proof -
    from m have "mset us =
        mset ((usable_urls us r1 @ usable_urls ?retry r2) @ unusable_urls ?retry r2)"
      by simp
    from mset_eq_imp_distinct_iff [OF this] that
    have "distinct ((usable_urls us r1 @ usable_urls ?retry r2) @ unusable_urls ?retry r2)"
      by simp
    then show ?thesis
      by (simp only: distinct_append)
  qed
  ultimately show ?thesis
    using f m length_usable_blocks [OF assms(2)] length_usable_blocks [OF l2]
    by simp
qed

theorem every_url_accounted_for_witness:
  "fetch flaky_engine [''u1'', ''u2'', ''u3''] 0 =
     (Inr \<lparr>all_results = [''A'' @ [NL, NL], ''B'' @ [NL, NL]], failed_acc = [''u3''],
           retry_urls = [''u2'', ''u3'']\<rparr>,
      [[''u1'', ''u2'', ''u3''], [''u2'', ''u3'']], 2) \<and>
   mset [''u1'', ''u2'', ''u3''] = mset [''u1''] + mset [''u2''] + mset [''u3''] \<and>
   length [''A'' @ [NL, NL], ''B'' @ [NL, NL]] + length [''u3''] = length [''u1'', ''u2'', ''u3'']"
proof -
  let ?u = "[''u1'', ''u2'', ''u3'']"
  let ?r1 = "[Result True (Markdown (Fit ''A'')), Result False NoMarkdownAttr, ResultNone]"
  let ?r2 = "[Result True (Markdown (Fit ''B'')), NoSuccessAttr]"
  have h1: "flaky_engine ?u 0 = (Inr ?r1, 1)" by (simp add: flaky_engine_def)
  have h2: "length ?r1 = length ?u" by simp
  have h3: "unusable_urls ?u ?r1 = [''u2'', ''u3'']" by simp
  have h4: "flaky_engine (unusable_urls ?u ?r1) 1 = (Inr ?r2, 2) \<and>
      length ?r2 = length (unusable_urls ?u ?r1)"
    by (simp add: flaky_engine_def)
  note t = every_url_accounted_for [where arun_many = flaky_engine and us = ?u and s = 0
      and ?r1.0 = ?r1 and ?s1.0 = 1 and ?r2.0 = ?r2 and ?s2.0 = 2]
  from t [OF h1 h2 h4] flaky_fetch show ?thesis by simp
qed

section \<open>The classification of one result\<close>

text \<open>
  Claim C4, as amended.  In the first loop a result with a true \<open>success\<close> sends its URL
  to \<open>retry_urls\<close> when the attribute \<open>markdown\<close> or its attribute \<open>fit_markdown\<close> is
  missing or \<open>fit_markdown\<close> is no string; a string, the empty one included,
  contributes the block made of the string and two line feeds, and the URL is not
  retried.
\<close>

theorem missing_content_is_retried:
  assumes "i < length us"
  shows "iteration record_retry us i (Result True md) st =
           (case md of
              Markdown (Fit s) \<Rightarrow> Inr (st\<lparr>all_results := all_results st @ [s @ [NL, NL]]\<rparr>)
            | _ \<Rightarrow> Inr (st\<lparr>retry_urls := retry_urls st @ [us ! i]\<rparr>))"
  using assms
  by (simp add: iteration_eq record_retry_def split: markdown.splits fit_markdown.splits)

theorem missing_content_is_retried_witness:
  "iteration record_retry [''u''] 0 (Result True NoMarkdownAttr) init_locals =
     Inr \<lparr>all_results = [], failed_acc = [], retry_urls = [''u'']\<rparr> \<and>
   iteration record_retry [''u''] 0 (Result True (Markdown NoFitAttr)) init_locals =
     Inr \<lparr>all_results = [], failed_acc = [], retry_urls = [''u'']\<rparr> \<and>
   iteration record_retry [''u''] 0 (Result True (Markdown FitNone)) init_locals =
     Inr \<lparr>all_results = [], failed_acc = [], retry_urls = [''u'']\<rparr> \<and>
   iteration record_retry [''u''] 0 (Result True (Markdown (Fit ''x''))) init_locals =
     Inr \<lparr>all_results = [''x'' @ [NL, NL]], failed_acc = [], retry_urls = []\<rparr>"
proof -
  have h: "0 < length [''u'']" by simp
  note t = missing_content_is_retried [where us = "[''u'']" and i = 0 and st = init_locals]
  from t [OF h, of NoMarkdownAttr] t [OF h, of "Markdown NoFitAttr"]
    t [OF h, of "Markdown FitNone"] t [OF h, of "Markdown (Fit ''x'')"]
  show ?thesis by (simp add: init_locals_def)
qed

text \<open>
  The claim as stated fails: a true \<open>success\<close> with the empty string as content is not
  a retry candidate; it contributes the block of two line feeds.
\<close>

theorem empty_content_is_usable:
  "iteration record_retry [''u''] 0 (Result True (Markdown (Fit []))) init_locals =
     Inr \<lparr>all_results = [[NL, NL]], failed_acc = [], retry_urls = []\<rparr> \<and>
   crawl_urls id blank_engine [''u''] ''q'' 0 =
     (Inr \<lparr>content = [], success_count = 1, failed_urls = []\<rparr>, [[''u'']], 1)"
proof -
  have n: "normalize id [NL, NL] = []"
    by code_simp
  show ?thesis
    by (simp add: iteration_eq init_locals_def fetch_def crawl_urls_def reduce_def
        blank_engine_def n)
qed

section \<open>The result reducer\<close>

text \<open>
  Claim C5.  Without a block the reducer raises the HTTP error 500 of the failed crawl,
  whatever the list of failed URLs is, and \<open>crawl_urls\<close> ends with an error of status
  500.  With a block it returns the normalized join of the blocks by the separator line
  \<open>\n\n==========\n\n\<close>, the number of blocks, and the list of failed URLs.
\<close>

theorem reduce_empty_or_joined:
  "reduce html_text \<lparr>all_results = [], failed_acc = failed, retry_urls = retry\<rparr> =
     Inl (HTTPException 500 AllUrlsFailed) \<and>
   (blocks \<noteq> [] \<longrightarrow>
      reduce html_text \<lparr>all_results = blocks, failed_acc = failed, retry_urls = retry\<rparr> =
        Inr \<lparr>content = normalize html_text (join ([NL, NL] @ ''=========='' @ [NL, NL]) blocks),
              success_count = length blocks, failed_urls = failed\<rparr>) \<and>
   (\<forall>st calls s'. fetch arun_many us s = (Inr st, calls, s') \<longrightarrow>
      crawl_urls html_text arun_many us instr s =
        (if all_results st = []
         then (Inl (HTTPException 500 (StrOf (HTTPException 500 AllUrlsFailed))), calls, s')
         else (Inr \<lparr>content = normalize html_text (join separator (all_results st)),
                     success_count = length (all_results st),
                     failed_urls = failed_acc st\<rparr>, calls, s')))"
  by (simp add: reduce_def crawl_urls_def separator_def)

theorem reduce_empty_or_joined_witness:
  "reduce id \<lparr>all_results = [], failed_acc = [''u''], retry_urls = [''u'']\<rparr> =
     Inl (HTTPException 500 AllUrlsFailed) \<and>
   reduce id \<lparr>all_results = [''x'', ''y''], failed_acc = [''u''], retry_urls = [''u'']\<rparr> =
     Inr \<lparr>content = normalize id (''x'' @ [NL, NL] @ ''=========='' @ [NL, NL] @ ''y''),
           success_count = 2, failed_urls = [''u'']\<rparr> \<and>
   fst (crawl_urls id flaky_engine [''u1'', ''u2'', ''u3''] ''q'' 0) =
     Inr \<lparr>content = normalize id (join separator [''A'' @ [NL, NL], ''B'' @ [NL, NL]]),
           success_count = 2, failed_urls = [''u3'']\<rparr>"
proof -
  have h: "[''x'', ''y''] \<noteq> []" by simp
  note t = reduce_empty_or_joined [where html_text = id and failed = "[''u'']"
      and retry = "[''u'']" and blocks = "[''x'', ''y'']" and arun_many = flaky_engine
      and us = "[''u1'', ''u2'', ''u3'']" and s = 0 and instr = "''q''"]
  from t h flaky_fetch show ?thesis by simp
qed

text \<open>
  Claim C6.  When \<open>crawl_urls\<close> returns, its blocks are the blocks of the usable results
  of the first call, in the order of that answer, followed by the blocks of the usable
  results of the second call, in the order of that answer; \<open>content\<close> is the normalized
  join of this list, a function of the batch and the two answers.
\<close>

theorem blocks_in_pass_order:
  assumes "crawl_urls html_text arun_many us instr s = (Inr resp, calls, s')"
  shows "\<exists>r1 s1 r2 st.
           arun_many us s = (Inr r1, s1) \<and>
           fetch arun_many us s = (Inr st, calls, s') \<and>
           (unusable_urls us r1 \<noteq> [] \<longrightarrow>
              arun_many (unusable_urls us r1) s1 = (Inr r2, s')) \<and>
           all_results st =
             usable_blocks r1 @ (if unusable_urls us r1 = [] then [] else usable_blocks r2) \<and>
           content resp = normalize html_text (join separator (all_results st)) \<and>
           success_count resp = length (all_results st)"
proof -
  from assms obtain st where f: "fetch arun_many us s = (Inr st, calls, s')"
    and r: "reduce html_text st = Inr resp"
    by (auto simp: crawl_urls_def split: prod.splits sum.splits)
  from r have c: "content resp = normalize html_text (join separator (all_results st))"
    "success_count resp = length (all_results st)"
    by (auto simp: reduce_def Let_def split: if_splits)
  from fetch_Inr [OF f] obtain r1 s1 where
    a: "arun_many us s = (Inr r1, s1)" "retry_urls st = unusable_urls us r1"
    and b: "if retry_urls st = []
            then st = \<lparr>all_results = usable_blocks r1, failed_acc = [], retry_urls = []\<rparr> \<and>
                 calls = [us] \<and> s' = s1
            else \<exists>r2. arun_many (retry_urls st) s1 = (Inr r2, s') \<and>
                   length r2 \<le> length (retry_urls st) \<and>
                   st = \<lparr>all_results = usable_blocks r1 @ usable_blocks r2,
                         failed_acc = unusable_urls (retry_urls st) r2,
                         retry_urls = unusable_urls us r1\<rparr> \<and>
                   calls = [us, retry_urls st]"
    by blast
  show ?thesis
  proof (cases "retry_urls st = []")
    case True
    with b have "all_results st = usable_blocks r1"
      by (metis locals.select_convs(1))
    with a f c True show ?thesis
      by (intro exI [of _ r1] exI [of _ s1] exI [of _ "[]"] exI [of _ st]) simp
  next
    case False
    with b obtain r2 where r2: "arun_many (retry_urls st) s1 = (Inr r2, s')"
      and st: "st = \<lparr>all_results = usable_blocks r1 @ usable_blocks r2,
             failed_acc = unusable_urls (retry_urls st) r2,
             retry_urls = unusable_urls us r1\<rparr>"
      by auto
    from st have "all_results st = usable_blocks r1 @ usable_blocks r2"
      by (metis locals.select_convs(1))
    with a f c False r2 show ?thesis
      by (intro exI [of _ r1] exI [of _ s1] exI [of _ r2] exI [of _ st]) simp
  qed
qed

lemma flaky_crawl:
  "crawl_urls id flaky_engine [''u1'', ''u2'', ''u3''] ''q'' 0 =
     (Inr \<lparr>content = normalize id (join separator [''A'' @ [NL, NL], ''B'' @ [NL, NL]]),
           success_count = 2, failed_urls = [''u3'']\<rparr>,
      [[''u1'', ''u2'', ''u3''], [''u2'', ''u3'']], 2)"
  by (simp add: crawl_urls_def flaky_fetch reduce_def)

theorem blocks_in_pass_order_witness:
  "crawl_urls id flaky_engine [''u1'', ''u2'', ''u3''] ''q'' 0 =
     (Inr \<lparr>content = normalize id (join separator [''A'' @ [NL, NL], ''B'' @ [NL, NL]]),
           success_count = 2, failed_urls = [''u3'']\<rparr>,
      [[''u1'', ''u2'', ''u3''], [''u2'', ''u3'']], 2) \<and>
   (\<exists>r1 s1 r2. flaky_engine [''u1'', ''u2'', ''u3''] 0 = (Inr r1, s1) \<and>
      [''A'' @ [NL, NL], ''B'' @ [NL, NL]] =
        usable_blocks r1 @
        (if unusable_urls [''u1'', ''u2'', ''u3''] r1 = [] then [] else usable_blocks r2))"
proof -
  from blocks_in_pass_order [OF flaky_crawl] flaky_fetch
  have "\<exists>r1 s1 r2. flaky_engine [''u1'', ''u2'', ''u3''] 0 = (Inr r1, s1) \<and>
      [''A'' @ [NL, NL], ''B'' @ [NL, NL]] =
        usable_blocks r1 @
        (if unusable_urls [''u1'', ''u2'', ''u3''] r1 = [] then [] else usable_blocks r2)"
    by fastforce
  with flaky_crawl show ?thesis by blast
qed

section \<open>The instruction argument\<close>

text \<open>
  Claim C10.  Neither \<open>crawl_urls\<close> nor the endpoint \<open>crawl\<close> depends on the
  instruction: with the same URLs, the same engine and the same engine state, two
  instructions give the same result, the same engine calls and the same engine state.
\<close>

theorem instruction_is_ignored:
  "crawl_urls html_text arun_many us instr1 s = crawl_urls html_text arun_many us instr2 s \<and>
   crawl html_text arun_many \<lparr>urls = us, instruction = instr1\<rparr> s =
     crawl html_text arun_many \<lparr>urls = us, instruction = instr2\<rparr> s"
  by (simp add: crawl_def crawl_urls_def)

theorem instruction_is_ignored_witness:
  "crawl id flaky_engine \<lparr>urls = [''u1'', ''u2'', ''u3''], instruction = ''first''\<rparr> 0 =
     crawl id flaky_engine \<lparr>urls = [''u1'', ''u2'', ''u3''], instruction = ''second''\<rparr> 0 \<and>
   fst (snd (crawl_urls id flaky_engine [''u1'', ''u2'', ''u3''] ''second'' 0)) =
     [[''u1'', ''u2'', ''u3''], [''u2'', ''u3'']]"
proof -
  note t = instruction_is_ignored [where html_text = id and arun_many = flaky_engine
      and us = "[''u1'', ''u2'', ''u3'']" and ?instr1.0 = "''q''" and ?instr2.0 = "''second''"
      and s = 0]
  note u = instruction_is_ignored [where html_text = id and arun_many = flaky_engine
      and us = "[''u1'', ''u2'', ''u3'']" and ?instr1.0 = "''first''" and ?instr2.0 = "''second''"
      and s = 0]
  from t have e: "crawl_urls id flaky_engine [''u1'', ''u2'', ''u3''] ''q'' 0 =
      crawl_urls id flaky_engine [''u1'', ''u2'', ''u3''] ''second'' 0"
    by blast
  have "fst (snd (crawl_urls id flaky_engine [''u1'', ''u2'', ''u3''] ''second'' 0)) =
      [[''u1'', ''u2'', ''u3''], [''u2'', ''u3'']]"
    unfolding e [symmetric] flaky_crawl by simp
  with u show ?thesis by blast
qed

section \<open>The search endpoint\<close>

lemma length_map_filter_le: "length (List.map_filter f xs) \<le> length xs"
  by (induction xs) (auto simp: List.map_filter_simps split: option.splits)

lemma length_slice_to: "0 \<le> n \<Longrightarrow> int (length (slice_to n xs)) \<le> n"
  by (simp add: slice_to_def)

lemma crawl_urls_calls:
  "fst (snd (crawl_urls html_text arun_many us instr s)) = fst (snd (fetch arun_many us s))"
  by (auto simp: crawl_urls_def split: prod.splits sum.splits)

lemma calls_not_longer:
  "xs \<in> set (fst (snd (crawl_urls html_text arun_many us instr s))) \<Longrightarrow> length xs \<le> length us"
  using fetch_calls [of arun_many us s] length_unusable_urls
  by (auto simp: crawl_urls_calls)

text \<open>
  Claim C8, as amended.  Let the search collaborator return a response.  Without the key
  \<open>results\<close> or with an empty list the endpoint fails with the 404 of no results and
  the engine is not called.  Otherwise the records are cut to \<open>results[:limit]\<close>, those
  among them without the key \<open>url\<close> are left out, and if no URL is left the endpoint
  fails with the 404 of no valid URL, again without a call of the engine; else the URLs
  left are crawled with the query as instruction.  For a limit that is not negative,
  every call of the engine carries at most \<open>limit\<close> URLs.
\<close>

theorem search_guards:
  assumes "searxng request = Inr response"
  shows "(results response = None \<or> results response = Some [] \<longrightarrow>
            search html_text arun_many searxng request s =
              (Inl (HTTPException 404 NoSearchResults), [], s)) \<and>
         (\<forall>rs. results response = Some rs \<and> rs \<noteq> [] \<longrightarrow>
            search html_text arun_many searxng request s =
              (if List.map_filter (\<lambda>result. result ''url'') (slice_to (limit request) rs) = []
               then (Inl (HTTPException 404 NoValidUrls), [], s)
               else crawl_urls html_text arun_many
                      (List.map_filter (\<lambda>result. result ''url'') (slice_to (limit request) rs))
                      (query request) s)) \<and>
         (0 \<le> limit request \<longrightarrow>
            (\<forall>us \<in> set (fst (snd (search html_text arun_many searxng request s))).
               int (length us) \<le> limit request))"
proof (intro conjI allI impI)
  assume "results response = None \<or> results response = Some []"
  with assms show "search html_text arun_many searxng request s =
      (Inl (HTTPException 404 NoSearchResults), [], s)"
    by (auto simp: search_def)
next
  fix rs
  assume "results response = Some rs \<and> rs \<noteq> []"
  with assms show "search html_text arun_many searxng request s =
      (if List.map_filter (\<lambda>result. result ''url'') (slice_to (limit request) rs) = []
       then (Inl (HTTPException 404 NoValidUrls), [], s)
       else crawl_urls html_text arun_many
              (List.map_filter (\<lambda>result. result ''url'') (slice_to (limit request) rs))
              (query request) s)"
    by (auto simp: search_def crawl_def split: list.splits)
next
  assume lim: "0 \<le> limit request"
  show "\<forall>us \<in> set (fst (snd (search html_text arun_many searxng request s))).
      int (length us) \<le> limit request"
  proof
    fix us
    assume us: "us \<in> set (fst (snd (search html_text arun_many searxng request s)))"
    let ?rs = "case results response of None \<Rightarrow> [] | Some rs \<Rightarrow> rs"
    let ?urls = "List.map_filter (\<lambda>result. result ''url'') (slice_to (limit request) ?rs)"
    from us assms have "us \<in> set (fst (snd (crawl_urls html_text arun_many ?urls (query request) s)))"
      by (auto simp: search_def crawl_def split: list.splits option.splits)
    then have "length us \<le> length ?urls" by (rule calls_not_longer)
    also have "\<dots> \<le> length (slice_to (limit request) ?rs)" by (rule length_map_filter_le)
    finally have "int (length us) \<le> int (length (slice_to (limit request) ?rs))" by simp
    with length_slice_to [OF lim, of ?rs] show "int (length us) \<le> limit request" by simp
  qed
qed

theorem search_guards_witness:
  "search id echo_engine no_hits (request_of 2) 0 =
     (Inl (HTTPException 404 NoSearchResults), [], 0) \<and>
   search id echo_engine three_hits (request_of 0) 0 =
     (Inl (HTTPException 404 NoValidUrls), [], 0) \<and>
   search id echo_engine three_hits (request_of 3) 0 =
     crawl_urls id echo_engine [''a'', ''c''] ''q'' 0 \<and>
   fst (snd (search id echo_engine three_hits (request_of 3) 0)) = [[''a'', ''c'']] \<and>
   int (length [''a'', ''c'']) \<le> 3"
proof -
  have h0: "no_hits (request_of 2) = Inr \<lparr>results = Some []\<rparr>"
    by (simp add: no_hits_def)
  let ?hits = "[[''url'' \<mapsto> ''a''], [''title'' \<mapsto> ''t''], [''url'' \<mapsto> ''c'']]"
  have h1: "three_hits (request_of 0) = Inr \<lparr>results = Some ?hits\<rparr>"
    and h2: "three_hits (request_of 3) = Inr \<lparr>results = Some ?hits\<rparr>"
    by (simp_all add: three_hits_def)
  have m0: "List.map_filter (\<lambda>result. result ''url'') (slice_to (limit (request_of 0)) ?hits) = []"
    by (simp add: request_of_def slice_to_def List.map_filter_simps)
  have m3: "List.map_filter (\<lambda>result. result ''url'') (slice_to (limit (request_of 3)) ?hits) =
      [''a'', ''c'']"
    by (simp add: request_of_def slice_to_def List.map_filter_simps)
  have q: "query (request_of 3) = ''q''" "0 \<le> limit (request_of 3)"
    by (simp_all add: request_of_def)
  note t0 = search_guards [where searxng = no_hits and request = "request_of 2"
      and html_text = id and arun_many = echo_engine and s = 0, OF h0]
  note t1 = search_guards [where searxng = three_hits and request = "request_of 0"
      and html_text = id and arun_many = echo_engine and s = 0, OF h1]
  note t2 = search_guards [where searxng = three_hits and request = "request_of 3"
      and html_text = id and arun_many = echo_engine and s = 0, OF h2]
  from t0 have a: "search id echo_engine no_hits (request_of 2) 0 =
      (Inl (HTTPException 404 NoSearchResults), [], 0)" by simp
  from t1 m0 have b: "search id echo_engine three_hits (request_of 0) 0 =
      (Inl (HTTPException 404 NoValidUrls), [], 0)" by simp
  from t2 m3 q have c: "search id echo_engine three_hits (request_of 3) 0 =
      crawl_urls id echo_engine [''a'', ''c''] ''q'' 0" by simp
  have d: "fst (snd (crawl_urls id echo_engine [''a'', ''c''] ''q'' 0)) = [[''a'', ''c'']]"
    by (simp add: crawl_urls_calls fetch_def echo_engine_def init_locals_def iteration_eq)
  from a b c d show ?thesis by simp
qed

text \<open>
  The claim as stated fails for a negative limit: \<open>results[:-1]\<close> drops the last record
  only, and a URL reaches the engine although the limit is \<open>-1\<close>.
\<close>

theorem negative_limit_hands_urls:
  "fst (snd (search id echo_engine three_hits (request_of (- 1)) 0)) = [[''a'']] \<and>
   \<not> int (length [''a'']) \<le> limit (request_of (- 1))"
  by (simp add: search_def three_hits_def request_of_def slice_to_def List.map_filter_simps
      crawl_def crawl_urls_calls fetch_def echo_engine_def init_locals_def iteration_eq)

section \<open>The normalizer on text without markup\<close>

lemma sub_headers_id: "CHR ''#'' \<notin> set s \<Longrightarrow> sub_headers s = s"
  by (induction s) auto

lemma match_link_None: "c \<noteq> CHR ''['' \<Longrightarrow> match_link (c # cs) = None"
  by (simp add: match_link_def)

lemma sub_links_id: "CHR ''['' \<notin> set s \<Longrightarrow> sub_links s = s"
  by (induction s) (auto simp: match_link_None)

lemma match_wrapped_None:
  "\<forall>d \<in> set ds. d \<noteq> [] \<and> hd d \<noteq> c \<Longrightarrow> match_wrapped ds dotall (c # cs) = None"
proof (induction ds)
  case Nil
  then show ?case by simp
next
  case (Cons d ds)
  then have "d \<noteq> []" "hd d \<noteq> c" by simp_all
  then have "\<not> prefix d (c # cs)"
    by (cases d) auto
  with Cons show ?case by simp
qed

lemma sub_wrapped_id:
  "\<forall>d \<in> set ds. d \<noteq> [] \<and> hd d \<notin> set s \<Longrightarrow> sub_wrapped ds dotall keep s = s"
proof (induction s)
  case Nil
  then show ?case by simp
next
  case (Cons c cs)
  then have n: "[] \<notin> set ds" and m: "\<forall>d \<in> set ds. d \<noteq> [] \<and> hd d \<noteq> c"
    and r: "\<forall>d \<in> set ds. d \<noteq> [] \<and> hd d \<notin> set cs"
    by auto
  from Cons.IH [OF r] match_wrapped_None [OF m] n show ?case by simp
qed

lemma sub_line_start_id:
  "list_all (\<lambda>c. \<not> mark c) (line_starts bol s) \<Longrightarrow> sub_line_start mark bol s = s"
  by (induction s arbitrary: bol) (auto split: if_splits)

lemma strip_fixed: "strip (strip s) = strip s"
proof -
  let ?t = "dropWhile isspace s"
  let ?u = "rev (dropWhile isspace (rev ?t))"
  have u: "strip s = ?u" by (simp add: strip_def)
  have front: "dropWhile isspace ?u = ?u"
  proof (cases "?u = []")
    case True
    show ?thesis by (simp only: True dropWhile.simps)
  next
    case False
    have split: "?t = ?u @ rev (takeWhile isspace (rev ?t))"
      by (metis rev_append rev_rev_ident takeWhile_dropWhile_id)
    with False have "hd ?u = hd ?t" and "?t \<noteq> []"
      by (metis hd_append2, metis False append_is_Nil_conv)
    moreover from \<open>?t \<noteq> []\<close> have "\<not> isspace (hd ?t)" by (rule hd_dropWhile)
    ultimately have "\<not> isspace (hd ?u)" by simp
    with False show ?thesis by (cases ?u) auto
  qed
  have "strip ?u = rev (dropWhile isspace (rev (dropWhile isspace ?u)))"
    by (simp only: strip_def)
  also have "\<dots> = rev (dropWhile isspace (rev ?u))" by (simp only: front)
  also have "\<dots> = ?u" by (simp add: dropWhile_idem)
  finally show ?thesis by (simp only: u)
qed

lemma markdown_to_text_regex_id:
  assumes "markup_free s"
  shows "markdown_to_text_regex s = strip s"
proof -
  from assms have chars: "CHR ''#'' \<notin> set s" "CHR ''['' \<notin> set s" "CHR ''*'' \<notin> set s"
    "CHR ''_'' \<notin> set s" "CHR 0x60 \<notin> set s"
    by (auto simp: markup_free_def list_all_iff)
  from assms have heads: "list_all (\<lambda>c. c \<noteq> CHR ''-'' \<and> c \<noteq> CHR ''+'' \<and> c \<noteq> CHR ''>'') (line_starts True s)"
    by (simp add: markup_free_def)
  have star: "list_all (\<lambda>c. c \<noteq> CHR ''*'') (line_starts b s)" for b
    using chars(3) by (induction s arbitrary: b) auto
  have s1: "sub_headers s = s" by (rule sub_headers_id [OF chars(1)])
  have s2: "sub_links s = s" by (rule sub_links_id [OF chars(2)])
  have s3: "sub_wrapped [''**'', ''__''] False True s = s"
    by (rule sub_wrapped_id) (use chars in simp)
  have s4: "sub_wrapped [''*'', ''_''] False True s = s"
    by (rule sub_wrapped_id) (use chars in simp)
  have s5: "sub_line_start (\<lambda>c. c = CHR ''*'' \<or> c = CHR ''-'' \<or> c = CHR ''+'') True s = s"
    by (rule sub_line_start_id) (use heads star [of True] in \<open>auto simp: list_all_iff\<close>)
  have s6: "sub_wrapped [[CHR 0x60, CHR 0x60, CHR 0x60]] True False s = s"
    by (rule sub_wrapped_id) (use chars in simp)
  have s7: "sub_wrapped [[CHR 0x60]] False True s = s"
    by (rule sub_wrapped_id) (use chars in simp)
  have s8: "sub_line_start (\<lambda>c. c = CHR ''>'') True s = s"
    by (rule sub_line_start_id) (use heads in \<open>auto simp: list_all_iff\<close>)
  show ?thesis
    by (simp add: markdown_to_text_regex_def s1 s2 s3 s4 s5 s6 s7 s8)
qed

text \<open>
  Claim C9, as amended.  If one pass of the normalizer leaves a text without markup
  tokens, and the first stage, \<open>markdown_to_text\<close>, returns that text as it is (the
  conversion of the library changes nothing in it and it has no blank line and no line
  with white space at an end), then a second pass returns the same text.
\<close>

theorem normalize_fixed_point:
  assumes "markup_free (normalize html_text x)"
    and "markdown_to_text html_text (normalize html_text x) = normalize html_text x"
  shows "normalize html_text (normalize html_text x) = normalize html_text x"
proof -
  let ?y = "normalize html_text x"
  have "strip ?y = ?y"
    by (simp add: normalize_def markdown_to_text_regex_def strip_fixed)
  with markdown_to_text_regex_id [OF assms(1)] have "markdown_to_text_regex ?y = ?y"
    by simp
  with assms(2) show ?thesis
    by (simp add: normalize_def)
qed

lemma sample_markup_normalized:
  "normalize id sample_markup = ''Title'' @ [NL] @ ''bold and link and code''"
  by code_simp

theorem normalize_fixed_point_witness:
  "normalize id sample_markup = ''Title'' @ [NL] @ ''bold and link and code'' \<and>
   markup_free (normalize id sample_markup) \<and>
   normalize id (normalize id sample_markup) = normalize id sample_markup"
proof -
  have m: "markup_free (normalize id sample_markup)"
    unfolding sample_markup_normalized by code_simp
  have f: "markdown_to_text id (normalize id sample_markup) = normalize id sample_markup"
    unfolding sample_markup_normalized by code_simp
  from normalize_fixed_point [OF m f] m sample_markup_normalized show ?thesis by simp
qed

text \<open>
  The claim as stated fails: the emphasis pattern turns the line \<open>* *\<close> into a line of
  one space; the text after one pass has no markup token, and the second pass drops the
  blank line.
\<close>

theorem second_pass_drops_blank_line:
  "normalize id spaced_stars = ''a'' @ [NL] @ '' '' @ [NL] @ ''b'' \<and>
   markup_free (normalize id spaced_stars) \<and>
   normalize id (normalize id spaced_stars) = ''a'' @ [NL] @ ''b'' \<and>
   normalize id (normalize id spaced_stars) \<noteq> normalize id spaced_stars"
proof -
  have a: "normalize id spaced_stars = ''a'' @ [NL] @ '' '' @ [NL] @ ''b''"
    by code_simp
  have b: "markup_free (''a'' @ [NL] @ '' '' @ [NL] @ ''b'')"
    by code_simp
  have c: "normalize id (''a'' @ [NL] @ '' '' @ [NL] @ ''b'') = ''a'' @ [NL] @ ''b''"
    by code_simp
  from a b c show ?thesis by simp
qed

section \<open>The separator line in the reduced content\<close>

lemma markdown_to_text_lines:
  "markdown_to_text html_text s =
     join [NL] (filter (\<lambda>l. l \<noteq> []) (map strip (split_nl (html_text s))))"
  by (simp add: markdown_to_text_def filter_map comp_def)

lemma separator_line_kept:
  "markdown_to_text_regex (''A'' @ [NL] @ ''=========='' @ [NL] @ ''B'') =
     ''A'' @ [NL] @ ''=========='' @ [NL] @ ''B''"
  by code_simp

text \<open>
  Claim C7, as amended.  For the blocks \<open>A\<close> and \<open>B\<close>, whenever the text the library
  extracts from the joined blocks has, blank lines aside and trimmed, the lines \<open>A\<close>,
  \<open>==========\<close> and \<open>B\<close>, the reducer returns the content \<open>A\n==========\nB\<close>: the
  blank lines around the separator are dropped, and the ten \<open>=\<close> of the separator stay,
  on a line of their own between \<open>A\<close> and \<open>B\<close>; no pattern of
  \<open>markdown_to_text_regex\<close> takes them for emphasis or heading markers.
\<close>

theorem separator_line_survives:
  assumes "filter (\<lambda>l. l \<noteq> []) (map strip (split_nl (html_text (join separator [''A'', ''B''])))) =
             [''A'', ''=========='', ''B'']"
  shows "reduce html_text \<lparr>all_results = [''A'', ''B''], failed_acc = failed, retry_urls = retry\<rparr> =
           Inr \<lparr>content = ''A'' @ [NL] @ ''=========='' @ [NL] @ ''B'',
                 success_count = 2, failed_urls = failed\<rparr>"
proof -
  have "markdown_to_text html_text (join separator [''A'', ''B'']) =
      join [NL] [''A'', ''=========='', ''B'']"
    by (simp only: markdown_to_text_lines assms)
  also have "\<dots> = ''A'' @ [NL] @ ''=========='' @ [NL] @ ''B''"
    by simp
  finally have "normalize html_text (join separator [''A'', ''B'']) =
      ''A'' @ [NL] @ ''=========='' @ [NL] @ ''B''"
    by (simp only: normalize_def separator_line_kept)
  then show ?thesis
    by (simp add: reduce_def)
qed

theorem separator_line_survives_witness:
  "filter (\<lambda>l. l \<noteq> []) (map strip (split_nl (id (join separator [''A'', ''B''])))) =
     [''A'', ''=========='', ''B''] \<and>
   reduce id \<lparr>all_results = [''A'', ''B''], failed_acc = [''u''], retry_urls = [''u'']\<rparr> =
     Inr \<lparr>content = ''A'' @ [NL] @ ''=========='' @ [NL] @ ''B'',
           success_count = 2, failed_urls = [''u'']\<rparr>"
proof -
  have h: "filter (\<lambda>l. l \<noteq> []) (map strip (split_nl (id (join separator [''A'', ''B''])))) =
     [''A'', ''=========='', ''B'']"
    by code_simp
  from separator_line_survives [of id, OF h] h show ?thesis by simp
qed

text \<open>
  The claim as stated fails: with a conversion that returns plain paragraphs as they
  are, the content for the blocks \<open>A\<close> and \<open>B\<close> holds the ten \<open>=\<close> of the separator,
  for the reducer alone and for a crawl of two pages with the contents \<open>A\<close> and \<open>B\<close>.
\<close>

theorem separator_characters_retained:
  "reduce id \<lparr>all_results = [''A'', ''B''], failed_acc = [], retry_urls = []\<rparr> =
     Inr \<lparr>content = ''A'' @ [NL] @ ''=========='' @ [NL] @ ''B'',
           success_count = 2, failed_urls = []\<rparr> \<and>
   fst (crawl_urls id echo_engine [''A'', ''B''] ''q'' 0) =
     Inr \<lparr>content = ''A'' @ [NL] @ ''=========='' @ [NL] @ ''B'',
           success_count = 2, failed_urls = []\<rparr> \<and>
   CHR ''='' \<in> set (''A'' @ [NL] @ ''=========='' @ [NL] @ ''B'')"
proof -
  have a: "normalize id (join separator [''A'', ''B'']) =
      ''A'' @ [NL] @ ''=========='' @ [NL] @ ''B''"
    by code_simp
  have b: "normalize id (join separator [''A'' @ [NL, NL], ''B'' @ [NL, NL]]) =
      ''A'' @ [NL] @ ''=========='' @ [NL] @ ''B''"
    by code_simp
  have f: "fetch echo_engine [''A'', ''B''] 0 =
      (Inr \<lparr>all_results = [''A'' @ [NL, NL], ''B'' @ [NL, NL]], failed_acc = [], retry_urls = []\<rparr>,
       [[''A'', ''B'']], 1)"
    by (simp add: fetch_def echo_engine_def init_locals_def iteration_eq)
  have r: "reduce id \<lparr>all_results = [''A'', ''B''], failed_acc = [], retry_urls = []\<rparr> =
     Inr \<lparr>content = ''A'' @ [NL] @ ''=========='' @ [NL] @ ''B'',
           success_count = 2, failed_urls = []\<rparr>"
    using a by (simp add: reduce_def)
  have c: "fst (crawl_urls id echo_engine [''A'', ''B''] ''q'' 0) =
     Inr \<lparr>content = ''A'' @ [NL] @ ''=========='' @ [NL] @ ''B'',
           success_count = 2, failed_urls = []\<rparr>"
    using b by (simp add: crawl_urls_def f reduce_def)
  from r c show ?thesis by simp
qed

end
